theory Spec2Isabelle
  imports Main "HOL-Library.Sublist"
begin

section \<open>Strings and JavaScript values\<close>

text \<open>
  A JavaScript string is modelled as a \<^typ>\<open>string\<close>, one \<^typ>\<open>char\<close> per code unit.
  An optional property (\<^verbatim>\<open>userId?: string\<close>) is a \<^typ>\<open>string option\<close>: \<open>None\<close> is
  the absent property, which reads as \<^verbatim>\<open>undefined\<close>.
\<close>

abbreviation DQUOTE :: char where "DQUOTE \<equiv> CHR 0x22"
abbreviation BACKSLASH :: char where "BACKSLASH \<equiv> CHR 0x5C"
abbreviation APOSTROPHE :: char where "APOSTROPHE \<equiv> CHR 0x27"
abbreviation BACKTICK :: char where "BACKTICK \<equiv> CHR 0x60"

text \<open>Truthiness of an optional string, as in \<^verbatim>\<open>if (input.userId)\<close>.\<close>

definition truthy :: "string option \<Rightarrow> bool" where
  "truthy v = (case v of None \<Rightarrow> False | Some s \<Rightarrow> s \<noteq> [])"

text \<open>An optional string inside a template literal, \<^verbatim>\<open>`${mention.userId}`\<close>.\<close>

definition toString :: "string option \<Rightarrow> string" where
  "toString v = (case v of None \<Rightarrow> ''undefined'' | Some s \<Rightarrow> s)"

text \<open>A non-negative integer inside a template literal, \<^verbatim>\<open>`${mentionId}`\<close>.\<close>

definition digit_char :: "nat \<Rightarrow> char" where
  "digit_char d = ''0123456789'' ! d"

fun string_of_nat :: "nat \<Rightarrow> string" where
  "string_of_nat n =
     (if n < 10 then [digit_char n]
      else string_of_nat (n div 10) @ [digit_char (n mod 10)])"

declare string_of_nat.simps [simp del]

section \<open>Mention types (types/mentions.ts)\<close>

text \<open>
  \<^verbatim>\<open>MentionInput\<close> is \<^verbatim>\<open>{ mention, userId?, channelId? }\<close>. A \<^verbatim>\<open>MentionMapping\<close> is an
  object of the union \<^verbatim>\<open>UserMentionMapping | ChannelMentionMapping\<close>; at run time it is an
  object that carries \<^verbatim>\<open>mention\<close>, \<^verbatim>\<open>displayName\<close> and the properties \<^verbatim>\<open>userId\<close> and
  \<^verbatim>\<open>channelId\<close>, each present or absent, which is what the type guards inspect.
\<close>

record MentionInput =
  mention :: string
  userId :: "string option"
  channelId :: "string option"

record MentionMapping = MentionInput +
  displayName :: string

datatype Mentioned =
    User "string option"
  | Conversation "string option" string string

text \<open>
  \<^verbatim>\<open>GraphMention\<close>: the field \<^verbatim>\<open>id\<close> is called \<open>mention_id\<close> here; \<open>User uid\<close> is
  \<^verbatim>\<open>{ user: { id: uid } }\<close> and \<open>Conversation cid name kind\<close> is
  \<^verbatim>\<open>{ conversation: { id: cid, displayName: name, conversationIdentityType: kind } }\<close>.
\<close>

record GraphMention =
  mention_id :: nat
  mentionText :: string
  mentioned :: Mentioned

definition isUserMentionMapping :: "MentionMapping \<Rightarrow> bool" where
  "isUserMentionMapping mapping = (userId mapping \<noteq> None)"

definition isChannelMentionMapping :: "MentionMapping \<Rightarrow> bool" where
  "isChannelMentionMapping mapping = (channelId mapping \<noteq> None)"

text \<open>
  \<^verbatim>\<open>convertMentionInputsToMappings\<close>: \<open>convertInput\<close> is the callback of \<^verbatim>\<open>inputs.map\<close>;
  a \<^verbatim>\<open>throw\<close> is \<open>Inl\<close> of the error message and aborts the whole map.
\<close>

definition convertInput :: "MentionInput \<Rightarrow> string + MentionMapping" where
  "convertInput input =
     (if truthy (userId input) then
        Inr \<lparr>mention = mention input, userId = userId input, channelId = None,
             displayName = mention input\<rparr>
      else if truthy (channelId input) then
        Inr \<lparr>mention = mention input, userId = None, channelId = channelId input,
             displayName = mention input\<rparr>
      else
        Inl (''Invalid mention: '' @ [DQUOTE] @ mention input @ [DQUOTE]
             @ '' must have either userId or channelId''))"

fun convertMentionInputsToMappings :: "MentionInput list \<Rightarrow> string + MentionMapping list" where
  "convertMentionInputsToMappings [] = Inr []"
| "convertMentionInputsToMappings (input # inputs) =
     (case convertInput input of
        Inl e \<Rightarrow> Inl e
      | Inr m \<Rightarrow>
         (case convertMentionInputsToMappings inputs of
            Inl e \<Rightarrow> Inl e
          | Inr ms \<Rightarrow> Inr (m # ms)))"

section \<open>The boundary schema (tools/teams.ts)\<close>

text \<open>
  The refinement of \<^verbatim>\<open>mentionsSchema\<close>: \<^verbatim>\<open>mentions.every(...)\<close> over the parsed array.
  The object schema itself holds by typing of \<^typ>\<open>MentionInput\<close>.
\<close>

definition mentionRefinement :: "MentionInput \<Rightarrow> bool" where
  "mentionRefinement m =
     (let hasUserId = (userId m \<noteq> None \<and> userId m \<noteq> Some []);
          hasChannelId = (channelId m \<noteq> None \<and> channelId m \<noteq> Some [])
      in (hasUserId \<and> \<not> hasChannelId) \<or> (\<not> hasUserId \<and> hasChannelId))"

definition mentionsSchemaMessage :: string where
  "mentionsSchemaMessage =
     ''Invalid mention configuration: Each mention must specify exactly one of ''
     @ [APOSTROPHE] @ ''userId'' @ [APOSTROPHE] @ '' (for user mentions) or ''
     @ [APOSTROPHE] @ ''channelId'' @ [APOSTROPHE] @ '' (for channel mentions). ''
     @ ''Found mention with both or neither. Check that each mention in the array has ''
     @ ''either userId OR channelId, not both and not neither.''"

text \<open>\<^verbatim>\<open>mentionsSchema.safeParse\<close>; the schema is \<^verbatim>\<open>.optional()\<close>, so \<open>None\<close> passes.\<close>

definition mentionsSchema :: "MentionInput list option \<Rightarrow> string + MentionInput list option" where
  "mentionsSchema input =
     (case input of
        None \<Rightarrow> Inr None
      | Some ms \<Rightarrow>
          if list_all mentionRefinement ms then Inr (Some ms)
          else Inl mentionsSchemaMessage)"

section \<open>Regular expressions and String.prototype.replace (utils/users.ts)\<close>

text \<open>
  \<^verbatim>\<open>escapeRegex\<close> is \<^verbatim>\<open>text.replace(/[.*+?^${}()|[\]\\]/g, "\\$&")\<close>: every character of the
  class is replaced by a backslash followed by itself.
\<close>

definition regexSpecial :: "char \<Rightarrow> bool" where
  "regexSpecial c = (c \<in> set (''.*+?^${}()|[]'' @ [BACKSLASH]))"

definition escapeRegex :: "string \<Rightarrow> string" where
  "escapeRegex text = concat (map (\<lambda>c. if regexSpecial c then [BACKSLASH, c] else [c]) text)"

text \<open>
  The literal that a pattern source denotes when it is built only of ordinary characters
  and of escaped syntax characters (\<^verbatim>\<open>\.\<close>, \<^verbatim>\<open>\$\<close>, ...); \<open>None\<close> for any other pattern
  source.
\<close>

fun patternLiteral :: "string \<Rightarrow> string option" where
  "patternLiteral [] = Some []"
| "patternLiteral [c] = (if c = BACKSLASH \<or> regexSpecial c then None else Some [c])"
| "patternLiteral (c # d # cs) =
     (if c = BACKSLASH then
        (if regexSpecial d then map_option ((#) d) (patternLiteral cs) else None)
      else if regexSpecial c then None
      else map_option ((#) c) (patternLiteral (d # cs)))"

text \<open>
  \<^verbatim>\<open>new RegExp(`@(?:"${escapeRegex(m)}"|${escapeRegex(m)})`, "g")\<close> tried at the start of
  \<open>s\<close>: the length of the match, the quoted alternative first, or \<open>None\<close>.
\<close>

definition mentionRegex :: "string \<Rightarrow> string \<Rightarrow> nat option" where
  "mentionRegex m s =
     (case patternLiteral (escapeRegex m) of
        None \<Rightarrow> None
      | Some lit \<Rightarrow>
          if prefix (CHR ''@'' # DQUOTE # lit @ [DQUOTE]) s then Some (length lit + 3)
          else if prefix (CHR ''@'' # lit) s then Some (length lit + 1)
          else None)"

text \<open>
  The expansion of a replacement template for one match (GetSubstitution of ECMAScript)
  for a pattern without capture groups: \<^verbatim>\<open>$$\<close> is a dollar sign, \<^verbatim>\<open>$&\<close> the matched text,
  \<^verbatim>\<open>$`\<close> the text before the match and \<^verbatim>\<open>$'\<close> the text after it; with no groups,
  \<^verbatim>\<open>$1\<close> ... \<^verbatim>\<open>$99\<close> and \<^verbatim>\<open>$<\<close> stay as they are.
\<close>

fun getSubstitution :: "string \<Rightarrow> string \<Rightarrow> nat \<Rightarrow> string \<Rightarrow> string" where
  "getSubstitution matched str position [] = []"
| "getSubstitution matched str position [c] = [c]"
| "getSubstitution matched str position (c # d # r) =
     (if c \<noteq> CHR ''$'' then c # getSubstitution matched str position (d # r)
      else if d = CHR ''$'' then CHR ''$'' # getSubstitution matched str position r
      else if d = CHR ''&'' then matched @ getSubstitution matched str position r
      else if d = BACKTICK then take position str @ getSubstitution matched str position r
      else if d = APOSTROPHE then
        drop (position + length matched) str @ getSubstitution matched str position r
      else c # getSubstitution matched str position (d # r))"

text \<open>
  \<^verbatim>\<open>content.replace(mentionRegex, template)\<close> with the global flag: the scan goes through
  the string from left to right; \<open>seen\<close> is the part of the original string already
  passed, \<open>rest\<close> the part still ahead. At a match the expanded template is emitted and
  the scan goes on behind the match; elsewhere the character is copied. The pattern begins
  with \<^verbatim>\<open>@\<close>, so it matches neither the empty string nor at the end of the input.
\<close>

fun replaceMentions :: "string \<Rightarrow> string \<Rightarrow> string \<Rightarrow> string \<Rightarrow> string" where
  "replaceMentions m template seen [] = []"
| "replaceMentions m template seen (c # cs) =
     (case mentionRegex m (c # cs) of
        None \<Rightarrow> c # replaceMentions m template (seen @ [c]) cs
      | Some n \<Rightarrow>
          if n = 0 then c # replaceMentions m template (seen @ [c]) cs
          else getSubstitution (take n (c # cs)) (seen @ c # cs) (length seen) template
               @ replaceMentions m template (seen @ take n (c # cs)) (drop (n - 1) cs))"

section \<open>processMentionsInHtml (utils/users.ts)\<close>

record MentionsResult =
  content :: string
  mentions :: "GraphMention list"

text \<open>The replacement template \<^verbatim>\<open>`<at id="${mentionId}">${mapping.displayName}</at>`\<close>.\<close>

definition mentionTemplate :: "nat \<Rightarrow> string \<Rightarrow> string" where
  "mentionTemplate mentionId name =
     ''<at id='' @ [DQUOTE] @ string_of_nat mentionId @ [DQUOTE] @ ''>'' @ name @ ''</at>''"

text \<open>
  The callback of \<^verbatim>\<open>mentionMappings.forEach\<close>; the state is the pair of the variables
  \<^verbatim>\<open>processedContent\<close> and \<^verbatim>\<open>mentions\<close> that the callback updates.
\<close>

definition processMapping :: "MentionsResult \<Rightarrow> MentionMapping \<Rightarrow> nat \<Rightarrow> MentionsResult" where
  "processMapping st mapping index =
     (let mentionId = index;
          processedContent =
            replaceMentions (mention mapping) (mentionTemplate mentionId (displayName mapping))
              [] (content st)
      in if isUserMentionMapping mapping then
           \<lparr>content = processedContent,
            mentions = mentions st @
              [\<lparr>mention_id = mentionId, mentionText = displayName mapping,
                mentioned = User (userId mapping)\<rparr>]\<rparr>
         else
           \<lparr>content = processedContent,
            mentions = mentions st @
              [\<lparr>mention_id = mentionId, mentionText = displayName mapping,
                mentioned = Conversation (channelId mapping) (displayName mapping)
                  ''channel''\<rparr>]\<rparr>)"

fun forEach :: "nat \<Rightarrow> MentionMapping list \<Rightarrow> MentionsResult \<Rightarrow> MentionsResult" where
  "forEach index [] st = st"
| "forEach index (mapping # mappings) st =
     forEach (Suc index) mappings (processMapping st mapping index)"

definition processMentionsInHtml :: "string \<Rightarrow> MentionMapping list \<Rightarrow> MentionsResult" where
  "processMentionsInHtml html mentionMappings =
     forEach 0 mentionMappings \<lparr>content = html, mentions = []\<rparr>"

section \<open>Resolving display names in send_channel_message (tools/teams.ts)\<close>

text \<open>
  The directory lookup \<^verbatim>\<open>client.api(`/users/${id}`).select("displayName").get()\<close> is a
  parameter: for a user id it either throws or answers with a response whose
  \<^verbatim>\<open>displayName\<close> is a string or absent. Reading \<^verbatim>\<open>displayName\<close> of an answer that is
  no object throws inside the same \<^verbatim>\<open>try\<close> block and is \<open>Throws\<close> as well.
  Console warnings and lookups are recorded in a log of effects.
\<close>

datatype LookupResult = Throws | Response "string option"

datatype Effect = ApiGet string | ConsoleWarn string

text \<open>\<^verbatim>\<open>/^19:[a-zA-Z0-9_-]+@thread\.tacv2$/.test(channelId)\<close>\<close>

definition channelIdChar :: "char \<Rightarrow> bool" where
  "channelIdChar c =
     (c \<in> set ''abcdefghijklmnopqrstuvwxyzABCDEFGHIJKLMNOPQRSTUVWXYZ0123456789_-'')"

definition channelIdPattern :: "string \<Rightarrow> bool" where
  "channelIdPattern chanId =
     (prefix ''19:'' chanId \<and> suffix ''@thread.tacv2'' chanId
      \<and> 17 \<le> length chanId
      \<and> list_all channelIdChar (take (length chanId - 16) (drop 3 chanId)))"

definition validateChannelIdFormat :: "string \<Rightarrow> string \<Rightarrow> Effect list" where
  "validateChannelIdFormat chanId mentionTxt =
     (if \<not> channelIdPattern chanId then
        [ConsoleWarn
          (''Channel mention '' @ [DQUOTE] @ mentionTxt @ [DQUOTE] @ '': Channel ID ''
           @ [DQUOTE] @ chanId @ [DQUOTE] @ '' may not be in the expected format. ''
           @ ''Expected format: '' @ [DQUOTE] @ ''19:xxx@thread.tacv2'' @ [DQUOTE]
           @ ''. The mention may not work correctly.'')]
      else [])"

text \<open>
  The body of \<^verbatim>\<open>for (const mention of mentions)\<close>; the state is the array
  \<^verbatim>\<open>mentionMappings\<close> and the log of effects.
\<close>

definition resolveMention ::
  "(string \<Rightarrow> LookupResult) \<Rightarrow> MentionMapping list \<times> Effect list \<Rightarrow> MentionInput
     \<Rightarrow> MentionMapping list \<times> Effect list" where
  "resolveMention lookup st m =
     (let mentionMappings = fst st; log = snd st in
      if truthy (userId m) then
        (case lookup (toString (userId m)) of
           Response name \<Rightarrow>
             (mentionMappings @
                [\<lparr>mention = mention m, userId = userId m, channelId = None,
                  displayName = (if truthy name then toString name else mention m)\<rparr>],
              log @ [ApiGet (''/users/'' @ toString (userId m))])
         | Throws \<Rightarrow>
             (mentionMappings @
                [\<lparr>mention = mention m, userId = userId m, channelId = None,
                  displayName = mention m\<rparr>],
              log @ [ApiGet (''/users/'' @ toString (userId m)),
                     ConsoleWarn (''Could not resolve user '' @ toString (userId m)
                       @ '', using mention text as display name'')]))
      else if truthy (channelId m) then
        (mentionMappings @
           [\<lparr>mention = mention m, userId = None, channelId = channelId m,
             displayName = mention m\<rparr>],
         log @ validateChannelIdFormat (toString (channelId m)) (mention m))
      else (mentionMappings, log))"

fun resolveMentions ::
  "(string \<Rightarrow> LookupResult) \<Rightarrow> MentionMapping list \<times> Effect list \<Rightarrow> MentionInput list
     \<Rightarrow> MentionMapping list \<times> Effect list" where
  "resolveMentions lookup st [] = st"
| "resolveMentions lookup st (m # ms) = resolveMentions lookup (resolveMention lookup st m) ms"

text \<open>
  The part of the \<^verbatim>\<open>send_channel_message\<close> handler between rendering and the image
  attachment: it resolves the mentions, injects them and fixes the content type.
\<close>

record MessageBody =
  bodyContent :: string
  bodyContentType :: string
  finalMentions :: "GraphMention list"
  effects :: "Effect list"

definition processMessageMentions ::
  "(string \<Rightarrow> LookupResult) \<Rightarrow> string \<Rightarrow> string \<Rightarrow> MentionInput list option \<Rightarrow> MessageBody" where
  "processMessageMentions lookup content0 contentType0 mentionsArg =
     (let st = (case mentionsArg of
                  None \<Rightarrow> ([], [])
                | Some ms \<Rightarrow> if 0 < length ms then resolveMentions lookup ([], []) ms
                             else ([], []));
          mentionMappings = fst st
      in if 0 < length mentionMappings then
           (let result = processMentionsInHtml content0 mentionMappings
            in \<lparr>bodyContent = content result, bodyContentType = ''html'',
                finalMentions = mentions result, effects = snd st\<rparr>)
         else
           \<lparr>bodyContent = content0, bodyContentType = contentType0,
            finalMentions = [], effects = snd st\<rparr>)"

section \<open>Notions used in the statements\<close>

text \<open>The record that \<open>processMapping\<close> pushes for a mapping at an index.\<close>

definition graphMention :: "MentionMapping \<Rightarrow> nat \<Rightarrow> GraphMention" where
  "graphMention mapping index =
     (if isUserMentionMapping mapping then
        \<lparr>mention_id = index, mentionText = displayName mapping,
         mentioned = User (userId mapping)\<rparr>
      else
        \<lparr>mention_id = index, mentionText = displayName mapping,
         mentioned = Conversation (channelId mapping) (displayName mapping) ''channel''\<rparr>)"

text \<open>
  The two written forms of a mention of the token \<open>tok\<close>, and what it means that one of
  them stands at the start of a text, or starts somewhere inside a stretch \<open>g\<close> of a text
  \<open>g @ rest\<close> (it may reach into \<open>rest\<close>).
\<close>

definition bareForm :: "string \<Rightarrow> string" where
  "bareForm tok = CHR ''@'' # tok"

definition quotedForm :: "string \<Rightarrow> string" where
  "quotedForm tok = CHR ''@'' # DQUOTE # tok @ [DQUOTE]"

definition occursHere :: "string \<Rightarrow> string \<Rightarrow> bool" where
  "occursHere tok s = (prefix (bareForm tok) s \<or> prefix (quotedForm tok) s)"

fun startsWithin :: "string \<Rightarrow> string \<Rightarrow> string \<Rightarrow> bool" where
  "startsWithin tok [] rest = False"
| "startsWithin tok (c # g) rest =
     (occursHere tok (c # g @ rest) \<or> startsWithin tok g rest)"

definition tokenOccurs :: "string \<Rightarrow> string \<Rightarrow> bool" where
  "tokenOccurs tok c = startsWithin tok c []"

text \<open>
  \<open>occ\<close>, followed by \<open>following\<close>, is an occurrence as the pattern reads it: the quoted
  form, or the bare form where the text does not go on to complete a quoted form (this
  can only happen for a token that is empty or begins with a double quote).
\<close>

definition matchedForm :: "string \<Rightarrow> string \<Rightarrow> string \<Rightarrow> bool" where
  "matchedForm tok occ following =
     (occ = quotedForm tok
      \<or> (occ = bareForm tok \<and> \<not> prefix (quotedForm tok) (occ @ following)))"

text \<open>
  A content cut at its occurrences: \<open>weave g [(occ\<^sub>1, g\<^sub>1), ..., (occ\<^sub>K, g\<^sub>K)]\<close> is
  \<open>g @ occ\<^sub>1 @ g\<^sub>1 @ ... @ occ\<^sub>K @ g\<^sub>K\<close>, and \<open>occurrencesIn tok g segs\<close> says that the
  \<open>occ\<^sub>j\<close> are occurrences of \<open>tok\<close> and that no occurrence starts inside a stretch
  between them: the content has exactly these \<open>K\<close> occurrences, read from left to right.
\<close>

fun weave :: "string \<Rightarrow> (string \<times> string) list \<Rightarrow> string" where
  "weave g [] = g"
| "weave g ((occ, g') # segs) = g @ occ @ weave g' segs"

fun occurrencesIn :: "string \<Rightarrow> string \<Rightarrow> (string \<times> string) list \<Rightarrow> bool" where
  "occurrencesIn tok g [] = (\<not> startsWithin tok g [])"
| "occurrencesIn tok g ((occ, g') # segs) =
     (\<not> startsWithin tok g (occ @ weave g' segs)
      \<and> matchedForm tok occ (weave g' segs)
      \<and> occurrencesIn tok g' segs)"

text \<open>The markup span \<^verbatim>\<open><at id="i">body</at>\<close>.\<close>

definition markupSpan :: "nat \<Rightarrow> string \<Rightarrow> string" where
  "markupSpan i body =
     ''<at id='' @ [DQUOTE] @ string_of_nat i @ [DQUOTE] @ ''>'' @ body @ ''</at>''"

text \<open>
  The spans that take the places of the occurrences of a content cut at its occurrences:
  the occurrence \<open>occ\<^sub>j\<close> becomes the markup span with id \<open>i\<close> around the display name
  \<open>name\<close>, expanded for this match (\<open>seen\<close> is the text before \<open>g\<close>); the stretches
  between the occurrences stay.
\<close>

fun spansFor ::
  "nat \<Rightarrow> string \<Rightarrow> string \<Rightarrow> string \<Rightarrow> (string \<times> string) list \<Rightarrow> (string \<times> string) list" where
  "spansFor i name seen g [] = []"
| "spansFor i name seen g ((occ, g') # segs) =
     (markupSpan i
        (getSubstitution occ (seen @ g @ occ @ weave g' segs) (length seen + length g) name),
      g')
     # spansFor i name (seen @ g @ occ) g' segs"

text \<open>
  The mapping that \<open>resolveMention\<close> pushes for an input that has one of the two ids, and
  the effects that are directory lookups.
\<close>

definition resolvedMapping :: "(string \<Rightarrow> LookupResult) \<Rightarrow> MentionInput \<Rightarrow> MentionMapping" where
  "resolvedMapping lookup m =
     (if truthy (userId m) then
        \<lparr>mention = mention m, userId = userId m, channelId = None,
         displayName =
           (case lookup (toString (userId m)) of
              Response name \<Rightarrow> if truthy name then toString name else mention m
            | Throws \<Rightarrow> mention m)\<rparr>
      else
        \<lparr>mention = mention m, userId = None, channelId = channelId m,
         displayName = mention m\<rparr>)"

fun isApiGet :: "Effect \<Rightarrow> bool" where
  "isApiGet (ApiGet path) = True"
| "isApiGet (ConsoleWarn msg) = False"

section \<open>Properties of the regular expression and of the replacement\<close>

lemma patternLiteral_plain:
  "\<not> regexSpecial c \<Longrightarrow> patternLiteral (c # cs) = map_option ((#) c) (patternLiteral cs)"
  by (cases cs) (auto simp: regexSpecial_def)

lemma patternLiteral_escaped:
  "regexSpecial d \<Longrightarrow>
     patternLiteral (BACKSLASH # d # cs) = map_option ((#) d) (patternLiteral cs)"
  by simp

text \<open>Escaping makes the pattern source denote the token itself.\<close>

lemma patternLiteral_escapeRegex: "patternLiteral (escapeRegex m) = Some m"
proof (induction m)
  case Nil
  show ?case by (simp add: escapeRegex_def)
next
  case (Cons c cs)
  have step: "escapeRegex (c # cs)
                = (if regexSpecial c then [BACKSLASH, c] else [c]) @ escapeRegex cs"
    by (simp add: escapeRegex_def)
  show ?case
  proof (cases "regexSpecial c")
    case True
    then show ?thesis
      using Cons.IH by (simp add: step patternLiteral_escaped del: patternLiteral.simps)
  next
    case False
    then show ?thesis
      using Cons.IH by (simp add: step patternLiteral_plain del: patternLiteral.simps)
  qed
qed

lemma mentionRegex_eq:
  "mentionRegex m s =
     (if prefix (quotedForm m) s then Some (length m + 3)
      else if prefix (bareForm m) s then Some (length m + 1)
      else None)"
  by (simp add: mentionRegex_def patternLiteral_escapeRegex quotedForm_def bareForm_def)

lemma mentionRegex_Some_bounds: "mentionRegex m s = Some n \<Longrightarrow> 0 < n \<and> n \<le> length s"
  by (auto simp: mentionRegex_eq prefix_def quotedForm_def bareForm_def split: if_splits)

lemma mentionRegex_None_iff: "mentionRegex m s = None \<longleftrightarrow> \<not> occursHere m s"
  by (auto simp: mentionRegex_eq occursHere_def)

lemma mentionRegex_matchedForm:
  "matchedForm m occ following \<Longrightarrow> mentionRegex m (occ @ following) = Some (length occ)"
  by (auto simp: matchedForm_def mentionRegex_eq quotedForm_def bareForm_def)

lemma replaceMentions_skip:
  "\<not> startsWithin m g rest \<Longrightarrow>
     replaceMentions m t seen (g @ rest) = g @ replaceMentions m t (seen @ g) rest"
proof (induction g arbitrary: seen)
  case Nil
  then show ?case by simp
next
  case (Cons c g)
  then have "mentionRegex m (c # g @ rest) = None" and "\<not> startsWithin m g rest"
    by (simp_all add: mentionRegex_None_iff)
  then show ?case using Cons.IH [of "seen @ [c]"] by simp
qed

lemma replaceMentions_unchanged: "\<not> tokenOccurs m c \<Longrightarrow> replaceMentions m t seen c = c"
  using replaceMentions_skip [of m c "[]" t seen] by (simp add: tokenOccurs_def)

lemma replaceMentions_match:
  assumes "mentionRegex m s = Some n"
  shows "replaceMentions m t seen s =
           getSubstitution (take n s) (seen @ s) (length seen) t
           @ replaceMentions m t (seen @ take n s) (drop n s)"
proof -
  from assms have n: "0 < n" "n \<le> length s"
    using mentionRegex_Some_bounds by auto
  then obtain c cs where s: "s = c # cs" by (cases s) auto
  from n have "drop (n - 1) cs = drop n (c # cs)" by (cases n) auto
  then show ?thesis using assms n by (simp add: s)
qed

lemma replaceMentions_occurrence:
  assumes "matchedForm m occ following"
  shows "replaceMentions m t seen (occ @ following) =
           getSubstitution occ (seen @ occ @ following) (length seen) t
           @ replaceMentions m t (seen @ occ) following"
  using replaceMentions_match [OF mentionRegex_matchedForm [OF assms], of t seen] by simp

lemma getSubstitution_plain: "CHR ''$'' \<notin> set t \<Longrightarrow> getSubstitution a s p t = t"
  by (induction a s p t rule: getSubstitution.induct) auto

lemma getSubstitution_plain_prefix:
  "CHR ''$'' \<notin> set u \<Longrightarrow> getSubstitution a s p (u @ t) = u @ getSubstitution a s p t"
proof (induction u)
  case Nil
  then show ?case by simp
next
  case (Cons c u)
  then show ?case by (cases "u @ t") auto
qed

lemma getSubstitution_plain_suffix:
  "CHR ''$'' \<notin> set u \<Longrightarrow> u \<noteq> [] \<Longrightarrow> hd u \<notin> {CHR ''&'', BACKTICK, APOSTROPHE} \<Longrightarrow>
     getSubstitution a s p (t @ u) = getSubstitution a s p t @ u"
proof (induction a s p t rule: getSubstitution.induct)
  case (1 matched str position)
  then show ?case by (simp add: getSubstitution_plain)
next
  case (2 matched str position c)
  then show ?case by (cases u) (auto simp: getSubstitution_plain)
next
  case (3 matched str position c d r)
  then show ?case by auto
qed

lemma digit_char_digit: "d < 10 \<Longrightarrow> digit_char d \<in> set ''0123456789''"
  unfolding digit_char_def by (rule nth_mem) simp

lemma string_of_nat_digits: "set (string_of_nat n) \<subseteq> set ''0123456789''"
proof (induction n rule: string_of_nat.induct)
  case (1 n)
  show ?case
  proof (cases "n < 10")
    case True
    then show ?thesis
      using digit_char_digit [of n] by (subst string_of_nat.simps) simp
  next
    case False
    have "n mod 10 < 10" by simp
    from digit_char_digit [OF this] "1.IH" [OF False] False
    show ?thesis by (subst string_of_nat.simps) simp
  qed
qed

lemma string_of_nat_no_dollar: "CHR ''$'' \<notin> set (string_of_nat n)"
  using string_of_nat_digits [of n] by auto

text \<open>Only the display name of the template can hold a \<^verbatim>\<open>$\<close> sequence.\<close>

lemma getSubstitution_mentionTemplate:
  "getSubstitution a s p (mentionTemplate i name) = markupSpan i (getSubstitution a s p name)"
proof -
  have "CHR ''$'' \<notin> set (''<at id='' @ [DQUOTE] @ string_of_nat i @ [DQUOTE] @ ''>'')"
    using string_of_nat_no_dollar [of i] by simp
  from getSubstitution_plain_prefix [OF this, of a s p "name @ ''</at>''"]
  show ?thesis
    by (simp add: mentionTemplate_def markupSpan_def getSubstitution_plain_suffix)
qed

lemma getSubstitution_mentionTemplate_plain:
  "CHR ''$'' \<notin> set name \<Longrightarrow>
     getSubstitution a s p (mentionTemplate i name) = markupSpan i name"
  by (simp add: getSubstitution_mentionTemplate getSubstitution_plain)

text \<open>The replacement on a content cut at its occurrences.\<close>

lemma replaceMentions_weave:
  "occurrencesIn m g segs \<Longrightarrow>
     \<exists>bodies. length bodies = length segs
       \<and> replaceMentions m (mentionTemplate i name) seen (weave g segs)
           = weave g (map2 (\<lambda>body (occ, g'). (markupSpan i body, g')) bodies segs)"
proof (induction segs arbitrary: g seen)
  case Nil
  then have "replaceMentions m (mentionTemplate i name) seen g = g"
    using replaceMentions_skip [of m g "[]"] by simp
  then show ?case by simp
next
  case (Cons seg segs)
  obtain occ g' where seg: "seg = (occ, g')" by (cases seg)
  from Cons.prems have skip: "\<not> startsWithin m g (occ @ weave g' segs)"
    and form: "matchedForm m occ (weave g' segs)" and rest: "occurrencesIn m g' segs"
    by (simp_all add: seg)
  from Cons.IH [OF rest, of "seen @ g @ occ"] obtain bodies where
    len: "length bodies = length segs" and
    eq: "replaceMentions m (mentionTemplate i name) (seen @ g @ occ) (weave g' segs)
           = weave g' (map2 (\<lambda>body (occ, g'). (markupSpan i body, g')) bodies segs)"
    by blast
  let ?b = "getSubstitution occ (seen @ g @ occ @ weave g' segs) (length (seen @ g)) name"
  have "replaceMentions m (mentionTemplate i name) seen (weave g (seg # segs))
          = g @ markupSpan i ?b
            @ weave g' (map2 (\<lambda>body (occ, g'). (markupSpan i body, g')) bodies segs)"
    using replaceMentions_skip [OF skip, of "mentionTemplate i name" seen]
      replaceMentions_occurrence [OF form, of "mentionTemplate i name" "seen @ g"] eq
    by (simp add: seg getSubstitution_mentionTemplate)
  then have "length (?b # bodies) = length (seg # segs)
     \<and> replaceMentions m (mentionTemplate i name) seen (weave g (seg # segs))
          = weave g (map2 (\<lambda>body (occ, g'). (markupSpan i body, g')) (?b # bodies)
                       (seg # segs))"
    using len by (simp add: seg)
  then show ?case by blast
qed

lemma replaceMentions_weave_plain:
  "CHR ''$'' \<notin> set name \<Longrightarrow> occurrencesIn m g segs \<Longrightarrow>
     replaceMentions m (mentionTemplate i name) seen (weave g segs)
       = weave g (map (\<lambda>(occ, g'). (markupSpan i name, g')) segs)"
proof (induction segs arbitrary: g seen)
  case Nil
  then show ?case using replaceMentions_skip [of m g "[]"] by simp
next
  case (Cons seg segs)
  obtain occ g' where seg: "seg = (occ, g')" by (cases seg)
  from Cons.prems have skip: "\<not> startsWithin m g (occ @ weave g' segs)"
    and form: "matchedForm m occ (weave g' segs)" and rest: "occurrencesIn m g' segs"
    by (simp_all add: seg)
  show ?case
    using replaceMentions_skip [OF skip, of "mentionTemplate i name" seen]
      replaceMentions_occurrence [OF form, of "mentionTemplate i name" "seen @ g"]
      Cons.IH [OF Cons.prems(1) rest, of "seen @ g @ occ"]
    by (simp add: seg getSubstitution_mentionTemplate_plain Cons.prems(1))
qed

lemma replaceMentions_weave_spans:
  "occurrencesIn m g segs \<Longrightarrow>
     replaceMentions m (mentionTemplate i name) seen (weave g segs)
       = weave g (spansFor i name seen g segs)"
proof (induction segs arbitrary: g seen)
  case Nil
  then show ?case using replaceMentions_skip [of m g "[]"] by simp
next
  case (Cons seg segs)
  obtain occ g' where seg: "seg = (occ, g')" by (cases seg)
  from Cons.prems have skip: "\<not> startsWithin m g (occ @ weave g' segs)"
    and form: "matchedForm m occ (weave g' segs)" and rest: "occurrencesIn m g' segs"
    by (simp_all add: seg)
  show ?case
    using replaceMentions_skip [OF skip, of "mentionTemplate i name" seen]
      replaceMentions_occurrence [OF form, of "mentionTemplate i name" "seen @ g"]
      Cons.IH [OF rest, of "seen @ g @ occ"]
    by (simp add: seg getSubstitution_mentionTemplate)
qed

lemma occurrencesIn_forms:
  "occurrencesIn m g segs \<Longrightarrow>
     \<forall>seg \<in> set segs. fst seg = quotedForm m \<or> fst seg = bareForm m"
proof (induction segs arbitrary: g)
  case Nil
  then show ?case by simp
next
  case (Cons seg segs)
  obtain occ g' where seg: "seg = (occ, g')" by (cases seg)
  from Cons.prems have "matchedForm m occ (weave g' segs)" and "occurrencesIn m g' segs"
    by (simp_all add: seg)
  with Cons.IH [of g'] show ?case
    by (simp add: seg matchedForm_def) blast
qed

lemma length_spansFor: "length (spansFor i name seen g segs) = length segs"
  by (induction segs arbitrary: seen g) auto

section \<open>Properties of processMentionsInHtml\<close>

lemma forEach_snoc:
  "forEach i (ms @ [m]) st = processMapping (forEach i ms st) m (i + length ms)"
  by (induction ms arbitrary: i st) auto

lemma processMentionsInHtml_snoc:
  "processMentionsInHtml html (ms @ [m])
     = processMapping (processMentionsInHtml html ms) m (length ms)"
  by (simp add: processMentionsInHtml_def forEach_snoc)

text \<open>
  \<open>processMentionsInHtml html (take i ms)\<close> is the state of the loop before the mapping
  at index \<open>i\<close> is processed, \<open>processMentionsInHtml html (take (Suc i) ms)\<close> the state
  after it.
\<close>

lemma processMentionsInHtml_Suc:
  "i < length ms \<Longrightarrow>
     processMentionsInHtml html (take (Suc i) ms)
       = processMapping (processMentionsInHtml html (take i ms)) (ms ! i) i"
  by (simp add: take_Suc_conv_app_nth processMentionsInHtml_snoc)

lemma content_processMapping:
  "content (processMapping st m i) =
     replaceMentions (mention m) (mentionTemplate i (displayName m)) [] (content st)"
  by (simp add: processMapping_def Let_def)

lemma mentions_processMapping:
  "mentions (processMapping st m i) = mentions st @ [graphMention m i]"
  by (simp add: processMapping_def graphMention_def Let_def)

lemma mentions_forEach:
  "mentions (forEach i ms st)
     = mentions st @ map (\<lambda>k. graphMention (ms ! k) (i + k)) [0..<length ms]"
proof (induction ms arbitrary: st rule: rev_induct)
  case Nil
  then show ?case by simp
next
  case (snoc m ms)
  show ?case
    by (simp add: forEach_snoc mentions_processMapping snoc.IH nth_append cong: map_cong)
qed

lemma mentions_processMentionsInHtml:
  "mentions (processMentionsInHtml html ms)
     = map (\<lambda>k. graphMention (ms ! k) k) [0..<length ms]"
  by (simp add: processMentionsInHtml_def mentions_forEach)

lemma nth_mentions:
  "i < length ms \<Longrightarrow> mentions (processMentionsInHtml html ms) ! i = graphMention (ms ! i) i"
  by (simp add: mentions_processMentionsInHtml)

lemma mention_id_graphMention: "mention_id (graphMention m i) = i"
  by (simp add: graphMention_def)

lemma tokenOccurs_simps:
  "tokenOccurs tok [] = False"
  "tokenOccurs tok (c # cs) = (occursHere tok (c # cs) \<or> tokenOccurs tok cs)"
  by (simp_all add: tokenOccurs_def)

lemma content_forEach_unchanged:
  "\<forall>m \<in> set ms. \<not> tokenOccurs (mention m) (content st) \<Longrightarrow>
     content (forEach i ms st) = content st"
proof (induction ms arbitrary: i st)
  case Nil
  then show ?case by simp
next
  case (Cons m ms)
  then have "content (processMapping st m i) = content st"
    by (simp add: content_processMapping replaceMentions_unchanged)
  with Cons show ?case by simp
qed

lemma filter_eq_upt: "i < n \<Longrightarrow> filter (\<lambda>k. k = i) [0..<n] = [i]"
  by (induction n) (auto simp: less_Suc_eq)

lemma one_record_per_mapping:
  "i < length ms \<Longrightarrow>
     filter (\<lambda>r. mention_id r = i) (mentions (processMentionsInHtml html ms))
       = [graphMention (ms ! i) i]"
  by (simp add: mentions_processMentionsInHtml filter_map o_def mention_id_graphMention
      filter_eq_upt)

section \<open>Validation\<close>

lemma mentionRefinement_iff:
  "mentionRefinement m \<longleftrightarrow> (truthy (userId m) \<noteq> truthy (channelId m))"
  by (auto simp: mentionRefinement_def truthy_def Let_def split: option.splits)

text \<open>The schema accepts an array iff every element has exactly one of the two ids.\<close>

lemma mentionsSchema_accepts_iff:
  "(\<exists>r. mentionsSchema (Some ms) = Inr r)
     \<longleftrightarrow> (\<forall>m \<in> set ms. truthy (userId m) \<noteq> truthy (channelId m))"
  by (simp add: mentionsSchema_def list_all_iff mentionRefinement_iff)

lemma convertInput_accepts_iff:
  "(\<exists>r. convertInput m = Inr r) \<longleftrightarrow> (truthy (userId m) \<or> truthy (channelId m))"
  by (simp add: convertInput_def)

text \<open>The conversion function accepts an array iff every element has at least one id.\<close>

lemma convertMentionInputsToMappings_accepts_iff:
  "(\<exists>r. convertMentionInputsToMappings ms = Inr r)
     \<longleftrightarrow> (\<forall>m \<in> set ms. truthy (userId m) \<or> truthy (channelId m))"
proof (induction ms)
  case Nil
  show ?case by simp
next
  case (Cons m ms)
  show ?case
  proof (cases "convertInput m")
    case (Inl e)
    with convertInput_accepts_iff [of m] show ?thesis by auto
  next
    case (Inr r)
    with convertInput_accepts_iff [of m] have "truthy (userId m) \<or> truthy (channelId m)"
      by auto
    with Inr Cons.IH show ?thesis
      by (cases "convertMentionInputsToMappings ms") auto
  qed
qed

text \<open>
  Claim C1. Validation accepts a list of raw reference inputs iff every element has
  exactly one of \<^verbatim>\<open>userId\<close> and \<^verbatim>\<open>channelId\<close> present and non-empty, on both paths,
  the conversion function \<^verbatim>\<open>convertMentionInputsToMappings\<close> and the schema
  \<^verbatim>\<open>mentionsSchema\<close>. The schema does so; the conversion function does not: for an element
  that has both ids it returns a user mapping instead of throwing, here at the input that
  the schema test rejects.
\<close>

theorem convert_accepts_both_ids:
  "convertMentionInputsToMappings
     [\<lparr>mention = ''Test'', userId = Some ''user-123'',
       channelId = Some ''19:channel@thread.tacv2''\<rparr>]
   = Inr [\<lparr>mention = ''Test'', userId = Some ''user-123'', channelId = None,
           displayName = ''Test''\<rparr>]
   \<and> mentionsSchema
        (Some [\<lparr>mention = ''Test'', userId = Some ''user-123'',
                channelId = Some ''19:channel@thread.tacv2''\<rparr>])
      = Inl mentionsSchemaMessage"
  by (simp add: convertInput_def truthy_def mentionsSchema_def mentionRefinement_def)

section \<open>Records and sequence ids\<close>

text \<open>
  Claim C8. For every content string \<open>C\<close>, \<^verbatim>\<open>processMentionsInHtml\<close> called with an empty
  reference list returns \<open>C\<close> unchanged and an empty record list.
\<close>

theorem empty_mappings_identity:
  "processMentionsInHtml C [] = \<lparr>content = C, mentions = []\<rparr>"
  by (simp add: processMentionsInHtml_def)

text \<open>
  Claim C3, as stated: a reference whose token never appears in the content yields its
  record with no markup span in the content. The record is there, but the span can be
  there too: the replacement of a reference works on the content left by the earlier
  ones, and the display name that an earlier reference has put in can hold the token.
  Here \<^verbatim>\<open>@corp\<close> is not in the given content, and the returned content has the span with
  the id \<open>1\<close> of the reference with the token \<^verbatim>\<open>corp\<close>.
\<close>

theorem later_reference_finds_token_in_display_name:
  "\<not> tokenOccurs ''corp'' ''Hi @john''
   \<and> content (processMentionsInHtml ''Hi @john''
        [\<lparr>mention = ''john'', userId = Some ''u1'', channelId = None,
          displayName = ''john@corp''\<rparr>,
         \<lparr>mention = ''corp'', userId = None, channelId = Some ''c1'',
          displayName = ''Corp''\<rparr>])
      = ''Hi <at id='' @ [DQUOTE] @ ''0'' @ [DQUOTE] @ ''>john<at id='' @ [DQUOTE] @ ''1''
        @ [DQUOTE] @ ''>Corp</at></at>''"
  by (simp add: processMentionsInHtml_def processMapping_def Let_def mentionTemplate_def
      string_of_nat.simps digit_char_def mentionRegex_eq quotedForm_def bareForm_def
      tokenOccurs_simps occursHere_def)

text \<open>
  Claim C3, amended. For every list of \<open>N\<close> references, \<^verbatim>\<open>processMentionsInHtml\<close> emits
  exactly \<open>N\<close> records, with the sequence ids \<open>0, ..., N - 1\<close> in the order of the list;
  the records do not depend on the content at all (not on where, how often or whether a
  token occurs). A reference whose token occurs nowhere in the content that its
  replacement works on (the given content after the replacements of the earlier
  references) still has its record, and its replacement leaves that content as it is;
  where no token of the list occurs in the given content, the content is returned as it
  is, without any markup span.
\<close>

theorem sequence_ids_follow_input_order:
  "length (mentions (processMentionsInHtml html ms)) = length ms
   \<and> map mention_id (mentions (processMentionsInHtml html ms)) = [0..<length ms]
   \<and> mentions (processMentionsInHtml html ms) = mentions (processMentionsInHtml html' ms)
   \<and> (\<forall>i<length ms.
         \<not> tokenOccurs (mention (ms ! i)) (content (processMentionsInHtml html (take i ms)))
         \<longrightarrow> content (processMentionsInHtml html (take (Suc i) ms))
             = content (processMentionsInHtml html (take i ms)))
   \<and> ((\<forall>m \<in> set ms. \<not> tokenOccurs (mention m) html)
        \<longrightarrow> content (processMentionsInHtml html ms) = html)"
proof -
  have "map mention_id (mentions (processMentionsInHtml html ms)) = [0..<length ms]"
    by (simp add: mentions_processMentionsInHtml mention_id_graphMention o_def map_idI)
  moreover have "length (mentions (processMentionsInHtml html ms)) = length ms"
    by (simp add: mentions_processMentionsInHtml)
  moreover have "mentions (processMentionsInHtml html ms)
                   = mentions (processMentionsInHtml html' ms)"
    by (simp add: mentions_processMentionsInHtml)
  moreover have "content (processMentionsInHtml html (take (Suc i) ms))
                   = content (processMentionsInHtml html (take i ms))"
    if "i < length ms"
      "\<not> tokenOccurs (mention (ms ! i)) (content (processMentionsInHtml html (take i ms)))"
    for i
    using that
    by (simp add: processMentionsInHtml_Suc content_processMapping replaceMentions_unchanged)
  moreover have "content (processMentionsInHtml html ms) = html"
    if "\<forall>m \<in> set ms. \<not> tokenOccurs (mention m) html"
    using that content_forEach_unchanged [of ms "\<lparr>content = html, mentions = []\<rparr>" 0]
    by (simp add: processMentionsInHtml_def)
  ultimately show ?thesis by blast
qed

theorem sequence_ids_follow_input_order_witness:
  "\<not> tokenOccurs ''General'' ''Hi all''
   \<and> map mention_id (mentions (processMentionsInHtml ''Hi all''
        [\<lparr>mention = ''General'', userId = None, channelId = Some ''19:abc@thread.tacv2'',
          displayName = ''General''\<rparr>])) = [0]
   \<and> content (processMentionsInHtml ''Hi all''
        [\<lparr>mention = ''General'', userId = None, channelId = Some ''19:abc@thread.tacv2'',
          displayName = ''General''\<rparr>]) = ''Hi all''"
proof -
  let ?m = "\<lparr>mention = ''General'', userId = None, channelId = Some ''19:abc@thread.tacv2'',
             displayName = ''General''\<rparr>"
  have h: "\<not> tokenOccurs ''General'' ''Hi all''"
    by (simp add: tokenOccurs_simps occursHere_def bareForm_def quotedForm_def)
  have e: "content (processMentionsInHtml ''Hi all'' []) = ''Hi all''"
    by (simp add: processMentionsInHtml_def)
  from sequence_ids_follow_input_order [of "''Hi all''" "[?m]" "''Hi all''"] h e
  show ?thesis by simp
qed

text \<open>
  Claim C5. For every well-formed reference, \<^verbatim>\<open>processMentionsInHtml\<close> dispatches on the
  variant: a user reference (it has a \<^verbatim>\<open>userId\<close> and no \<^verbatim>\<open>channelId\<close>) yields the record
  \<^verbatim>\<open>{ id, mentionText: displayName, mentioned: { user: { id: userId } } }\<close>, a channel
  reference (it has a \<^verbatim>\<open>channelId\<close> and no \<^verbatim>\<open>userId\<close>) the record with the target
  \<^verbatim>\<open>{ conversation: { id: channelId, displayName, conversationIdentityType: "channel" } }\<close>.
\<close>

theorem variant_dispatch:
  assumes "i < length ms"
  shows "(userId (ms ! i) = Some uid \<and> channelId (ms ! i) = None \<longrightarrow>
            mentions (processMentionsInHtml html ms) ! i
              = \<lparr>mention_id = i, mentionText = displayName (ms ! i),
                  mentioned = User (Some uid)\<rparr>)
       \<and> (userId (ms ! i) = None \<and> channelId (ms ! i) = Some cid \<longrightarrow>
            mentions (processMentionsInHtml html ms) ! i
              = \<lparr>mention_id = i, mentionText = displayName (ms ! i),
                  mentioned = Conversation (Some cid) (displayName (ms ! i)) ''channel''\<rparr>)"
  using assms by (simp add: nth_mentions graphMention_def isUserMentionMapping_def)

theorem variant_dispatch_witness:
  "mentions (processMentionsInHtml ''Ask @alice in @General''
      [\<lparr>mention = ''alice'', userId = Some ''u1'', channelId = None,
        displayName = ''Alice''\<rparr>,
       \<lparr>mention = ''General'', userId = None, channelId = Some ''c1'',
        displayName = ''General''\<rparr>]) ! 0
     = \<lparr>mention_id = 0, mentionText = ''Alice'', mentioned = User (Some ''u1'')\<rparr>
   \<and> mentions (processMentionsInHtml ''Ask @alice in @General''
      [\<lparr>mention = ''alice'', userId = Some ''u1'', channelId = None,
        displayName = ''Alice''\<rparr>,
       \<lparr>mention = ''General'', userId = None, channelId = Some ''c1'',
        displayName = ''General''\<rparr>]) ! 1
     = \<lparr>mention_id = 1, mentionText = ''General'',
         mentioned = Conversation (Some ''c1'') ''General'' ''channel''\<rparr>"
proof -
  let ?ms = "[\<lparr>mention = ''alice'', userId = Some ''u1'', channelId = None,
               displayName = ''Alice''\<rparr>,
              \<lparr>mention = ''General'', userId = None, channelId = Some ''c1'',
               displayName = ''General''\<rparr>]"
  have l0: "0 < length ?ms" and l1: "1 < length ?ms" by simp_all
  from variant_dispatch [OF l0, of "''u1''" "''Ask @alice in @General''"]
       variant_dispatch [OF l1, of _ "''Ask @alice in @General''" "''c1''"]
  show ?thesis by simp
qed

text \<open>
  Claim C9. For an ill-formed mapping that carries both a \<^verbatim>\<open>userId\<close> and a \<^verbatim>\<open>channelId\<close>,
  \<^verbatim>\<open>isUserMentionMapping\<close> and \<^verbatim>\<open>isChannelMentionMapping\<close> both return true, and
  \<^verbatim>\<open>processMentionsInHtml\<close> treats it as a user mention: the record has the user target
  and the \<^verbatim>\<open>channelId\<close> is ignored.
\<close>

theorem both_ids_user_priority:
  assumes "userId m = Some uid" and "channelId m = Some cid"
  shows "isUserMentionMapping m \<and> isChannelMentionMapping m
       \<and> (\<forall>i<length ms. ms ! i = m \<longrightarrow>
            mentions (processMentionsInHtml html ms) ! i
              = \<lparr>mention_id = i, mentionText = displayName m, mentioned = User (Some uid)\<rparr>)"
  using assms
  by (simp add: nth_mentions graphMention_def isUserMentionMapping_def
      isChannelMentionMapping_def)

theorem both_ids_user_priority_witness:
  "isUserMentionMapping
     \<lparr>mention = ''Test'', userId = Some ''u1'', channelId = Some ''c1'', displayName = ''T''\<rparr>
   \<and> isChannelMentionMapping
     \<lparr>mention = ''Test'', userId = Some ''u1'', channelId = Some ''c1'', displayName = ''T''\<rparr>
   \<and> mentions (processMentionsInHtml ''Hi @Test''
        [\<lparr>mention = ''Test'', userId = Some ''u1'', channelId = Some ''c1'',
          displayName = ''T''\<rparr>]) ! 0
      = \<lparr>mention_id = 0, mentionText = ''T'', mentioned = User (Some ''u1'')\<rparr>"
proof -
  let ?m = "\<lparr>mention = ''Test'', userId = Some ''u1'', channelId = Some ''c1'',
             displayName = ''T''\<rparr>"
  have u: "userId ?m = Some ''u1''" and c: "channelId ?m = Some ''c1''" by simp_all
  from both_ids_user_priority [OF u c, of "[?m]" "''Hi @Test''"]
  show ?thesis by simp
qed

section \<open>Replacement of occurrences\<close>

text \<open>
  Claim C2, as stated: in \<^verbatim>\<open>processMentionsInHtml\<close>, for every reference both forms
  occurring in the content are replaced, a token that contains a space is matched only in
  its quoted form, and a bare \<^verbatim>\<open>@\<close> followed by such a token is left unchanged. It is
  not so in two respects. The pattern has the bare alternative for every token, and the
  bare \<^verbatim>\<open>@John Doe\<close> is replaced. And an occurrence in the given content is not replaced
  by the span of its reference where an earlier reference takes it first: the token
  \<^verbatim>\<open>Ann Lee\<close> occurs in \<^verbatim>\<open>Ask @Ann Lee\<close>, but the reference with the token \<^verbatim>\<open>Ann\<close> comes
  first in the list and only its span is in the returned content.
\<close>

theorem bare_form_with_space_is_replaced:
  "CHR '' '' \<in> set ''John Doe''
   \<and> content (processMentionsInHtml ''Hi @John Doe!''
        [\<lparr>mention = ''John Doe'', userId = Some ''u1'', channelId = None,
          displayName = ''John Doe''\<rparr>])
      = ''Hi <at id='' @ [DQUOTE] @ ''0'' @ [DQUOTE] @ ''>John Doe</at>!''
   \<and> tokenOccurs ''Ann Lee'' ''Ask @Ann Lee''
   \<and> content (processMentionsInHtml ''Ask @Ann Lee''
        [\<lparr>mention = ''Ann'', userId = Some ''u1'', channelId = None, displayName = ''Ann''\<rparr>,
         \<lparr>mention = ''Ann Lee'', userId = Some ''u2'', channelId = None,
          displayName = ''Ann Lee''\<rparr>])
      = ''Ask <at id='' @ [DQUOTE] @ ''0'' @ [DQUOTE] @ ''>Ann</at> Lee''"
  by (simp add: processMentionsInHtml_def processMapping_def Let_def mentionTemplate_def
      string_of_nat.simps digit_char_def mentionRegex_eq quotedForm_def bareForm_def
      tokenOccurs_simps occursHere_def)

text \<open>
  Claim C2, amended. In \<^verbatim>\<open>processMentionsInHtml\<close>, for every reference both the bare form
  \<^verbatim>\<open>@token\<close> and the quoted form \<^verbatim>\<open>@"token"\<close> occurring in the content that its
  replacement works on (the given content after the replacements of the earlier
  references) are replaced, whether or not the token contains a space. The content is
  given cut at all its occurrences of the token, \<open>weave g segs\<close>: every one of them is
  the quoted or the bare form, and the content after the replacement has, in the place of
  every one of them, the markup span with the id of the reference around the expanded
  display name, and the stretches between them as they were.
\<close>

theorem both_forms_replaced:
  assumes "i < length ms"
    and "content (processMentionsInHtml html (take i ms)) = weave g segs"
    and "occurrencesIn (mention (ms ! i)) g segs"
  shows "(\<forall>seg \<in> set segs.
            fst seg = quotedForm (mention (ms ! i)) \<or> fst seg = bareForm (mention (ms ! i)))
       \<and> length (spansFor i (displayName (ms ! i)) [] g segs) = length segs
       \<and> content (processMentionsInHtml html (take (Suc i) ms))
           = weave g (spansFor i (displayName (ms ! i)) [] g segs)"
  using assms occurrencesIn_forms [OF assms(3)]
    replaceMentions_weave_spans [OF assms(3), of i "displayName (ms ! i)" "[]"]
  by (simp add: processMentionsInHtml_Suc content_processMapping length_spansFor)

theorem both_forms_replaced_witness:
  "occurrencesIn ''John Doe'' ''Hi ''
     [(''@John Doe'', '' and ''), (''@'' @ [DQUOTE] @ ''John Doe'' @ [DQUOTE], ''!'')]
   \<and> content (processMentionsInHtml
        (''Hi @John Doe and @'' @ [DQUOTE] @ ''John Doe'' @ [DQUOTE] @ ''!'')
        [\<lparr>mention = ''John Doe'', userId = Some ''u1'', channelId = None,
          displayName = ''John Doe''\<rparr>])
      = ''Hi <at id='' @ [DQUOTE] @ ''0'' @ [DQUOTE] @ ''>John Doe</at> and <at id=''
        @ [DQUOTE] @ ''0'' @ [DQUOTE] @ ''>John Doe</at>!''"
proof -
  let ?m = "\<lparr>mention = ''John Doe'', userId = Some ''u1'', channelId = None,
             displayName = ''John Doe''\<rparr>"
  let ?segs = "[(''@John Doe'', '' and ''),
                (''@'' @ [DQUOTE] @ ''John Doe'' @ [DQUOTE], ''!'')]"
  let ?html = "''Hi @John Doe and @'' @ [DQUOTE] @ ''John Doe'' @ [DQUOTE] @ ''!''"
  have l: "0 < length [?m]" by simp
  have c: "content (processMentionsInHtml ?html (take 0 [?m])) = weave ''Hi '' ?segs"
    by (simp add: processMentionsInHtml_def)
  have o: "occurrencesIn ''John Doe'' ''Hi '' ?segs"
    by (simp add: occursHere_def bareForm_def quotedForm_def matchedForm_def)
  then have o': "occurrencesIn (mention ([?m] ! 0)) ''Hi '' ?segs" by simp
  from both_forms_replaced [OF l c o'] o
  show ?thesis
    by (simp add: markupSpan_def string_of_nat.simps digit_char_def)
qed

text \<open>
  Claim C4, as stated: for every reference whose token occurs \<open>K > 0\<close> times in the
  content, the returned content contains \<open>K\<close> markup spans with the sequence id of that
  reference. It does not where the token of an earlier reference is a prefix of the token:
  the replacement of the earlier reference takes the occurrence first. Here the token
  \<^verbatim>\<open>John Doe\<close> occurs once in the content, and the returned content has no span with its
  id \<open>1\<close>.
\<close>

theorem prefix_token_loses_its_span:
  "occurrencesIn ''John Doe'' ''@John and '' [(''@John Doe'', [])]
   \<and> content (processMentionsInHtml ''@John and @John Doe''
        [\<lparr>mention = ''John'', userId = Some ''u1'', channelId = None,
          displayName = ''John Smith''\<rparr>,
         \<lparr>mention = ''John Doe'', userId = Some ''u2'', channelId = None,
          displayName = ''John Doe''\<rparr>])
      = ''<at id='' @ [DQUOTE] @ ''0'' @ [DQUOTE] @ ''>John Smith</at> and <at id=''
        @ [DQUOTE] @ ''0'' @ [DQUOTE] @ ''>John Smith</at> Doe''
   \<and> \<not> sublist (''<at id='' @ [DQUOTE] @ ''1'' @ [DQUOTE] @ ''>'')
         (content (processMentionsInHtml ''@John and @John Doe''
            [\<lparr>mention = ''John'', userId = Some ''u1'', channelId = None,
              displayName = ''John Smith''\<rparr>,
             \<lparr>mention = ''John Doe'', userId = Some ''u2'', channelId = None,
              displayName = ''John Doe''\<rparr>]))"
proof -
  let ?ms = "[\<lparr>mention = ''John'', userId = Some ''u1'', channelId = None,
               displayName = ''John Smith''\<rparr>,
              \<lparr>mention = ''John Doe'', userId = Some ''u2'', channelId = None,
               displayName = ''John Doe''\<rparr>]"
  let ?out = "''<at id='' @ [DQUOTE] @ ''0'' @ [DQUOTE] @ ''>John Smith</at> and <at id=''
        @ [DQUOTE] @ ''0'' @ [DQUOTE] @ ''>John Smith</at> Doe''"
  have o: "occurrencesIn ''John Doe'' ''@John and '' [(''@John Doe'', [])]"
    by (simp add: occursHere_def bareForm_def quotedForm_def matchedForm_def)
  have c: "content (processMentionsInHtml ''@John and @John Doe'' ?ms) = ?out"
    by (simp add: processMentionsInHtml_def processMapping_def Let_def mentionTemplate_def
        string_of_nat.simps digit_char_def mentionRegex_eq quotedForm_def bareForm_def)
  have n: "\<not> sublist (''<at id='' @ [DQUOTE] @ ''1'' @ [DQUOTE] @ ''>'') ?out"
    by (simp add: sublist_Cons_right)
  from o c n show ?thesis by simp
qed

text \<open>
  Claim C4, amended. For every reference whose token occurs \<open>K\<close> times (in the bare or in
  the quoted form, as the pattern finds them from left to right) in the content that its
  replacement works on, which is the given content after the replacements of the earlier
  references, the content after its replacement holds \<open>K\<close> markup spans in the places of
  these occurrences, all with the sequence id of that reference, and exactly one record
  with that id is emitted. The content is given cut at its \<open>K\<close> occurrences,
  \<open>weave g segs\<close> with \<open>K = length segs\<close>. For the first reference of a list this is
  the given content, for the last one the content after its replacement is the returned
  content.
\<close>

theorem repeated_token_one_record:
  assumes "i < length ms"
    and "content (processMentionsInHtml html (take i ms)) = weave g segs"
    and "occurrencesIn (mention (ms ! i)) g segs"
  shows "(\<exists>bodies. length bodies = length segs
            \<and> content (processMentionsInHtml html (take (Suc i) ms))
                = weave g (map2 (\<lambda>body (occ, g'). (markupSpan i body, g')) bodies segs))
       \<and> length (filter (\<lambda>r. mention_id r = i) (mentions (processMentionsInHtml html ms)))
           = 1"
  using assms replaceMentions_weave [OF assms(3), of i "displayName (ms ! i)" "[]"]
  by (simp add: processMentionsInHtml_Suc content_processMapping one_record_per_mapping)

theorem repeated_token_one_record_witness:
  "occurrencesIn ''General'' ''<p>''
     [(''@General'', '' is great. I love ''), (''@General'', ''!</p>'')]
   \<and> (\<exists>bodies. length bodies = 2
         \<and> content (processMentionsInHtml ''<p>@General is great. I love @General!</p>''
              [\<lparr>mention = ''General'', userId = None,
                channelId = Some ''19:general@thread.tacv2'', displayName = ''General''\<rparr>])
            = ''<p>'' @ markupSpan 0 (bodies ! 0) @ '' is great. I love ''
              @ markupSpan 0 (bodies ! 1) @ ''!</p>'')
   \<and> length (filter (\<lambda>r. mention_id r = 0)
        (mentions (processMentionsInHtml ''<p>@General is great. I love @General!</p>''
           [\<lparr>mention = ''General'', userId = None,
             channelId = Some ''19:general@thread.tacv2'', displayName = ''General''\<rparr>])))
      = 1"
proof -
  let ?m = "\<lparr>mention = ''General'', userId = None,
             channelId = Some ''19:general@thread.tacv2'', displayName = ''General''\<rparr>"
  let ?segs = "[(''@General'', '' is great. I love ''), (''@General'', ''!</p>'')]"
  let ?html = "''<p>@General is great. I love @General!</p>''"
  have l: "0 < length [?m]" by simp
  have c: "content (processMentionsInHtml ?html (take 0 [?m])) = weave ''<p>'' ?segs"
    by (simp add: processMentionsInHtml_def)
  have o: "occurrencesIn ''General'' ''<p>'' ?segs"
    by (simp add: occursHere_def bareForm_def quotedForm_def matchedForm_def)
  then have o': "occurrencesIn (mention ([?m] ! 0)) ''<p>'' ?segs" by simp
  note t = repeated_token_one_record [OF l c o']
  from t have r: "length (filter (\<lambda>r. mention_id r = 0)
                    (mentions (processMentionsInHtml ?html [?m]))) = 1"
    by (rule conjunct2)
  from t obtain bodies where
    b: "length bodies = length ?segs"
      "content (processMentionsInHtml ?html (take (Suc 0) [?m]))
         = weave ''<p>'' (map2 (\<lambda>body (occ, g'). (markupSpan 0 body, g')) bodies ?segs)"
    by blast
  from b(1) obtain b0 b1 where "bodies = [b0, b1]"
    by (auto simp: length_Suc_conv)
  with b(2) have "length bodies = 2
         \<and> content (processMentionsInHtml ?html [?m])
            = ''<p>'' @ markupSpan 0 (bodies ! 0) @ '' is great. I love ''
              @ markupSpan 0 (bodies ! 1) @ ''!</p>''"
    by simp
  with o r show ?thesis by blast
qed

text \<open>
  Claim C10, as stated: for every mapping whose \<^verbatim>\<open>displayName\<close> contains no \<^verbatim>\<open>$\<close> and
  whose token occurs in the content, each replaced occurrence in the output of
  \<^verbatim>\<open>processMentionsInHtml\<close> is exactly the string \<^verbatim>\<open><at id="i">displayName</at>\<close>. In the
  output it need not be: the replacement of a later reference works on the spans put in
  before. Here the display name \<^verbatim>\<open>john@corp\<close> has no \<^verbatim>\<open>$\<close>, the token \<^verbatim>\<open>john\<close> occurs,
  and the output does not contain \<^verbatim>\<open><at id="0">john@corp</at>\<close>.
\<close>

theorem later_reference_rewrites_span:
  "CHR ''$'' \<notin> set ''john@corp''
   \<and> tokenOccurs ''john'' ''Hi @john''
   \<and> content (processMentionsInHtml ''Hi @john''
        [\<lparr>mention = ''john'', userId = Some ''u1'', channelId = None,
          displayName = ''john@corp''\<rparr>,
         \<lparr>mention = ''corp'', userId = None, channelId = Some ''c1'',
          displayName = ''Corp''\<rparr>])
      = ''Hi <at id='' @ [DQUOTE] @ ''0'' @ [DQUOTE] @ ''>john<at id='' @ [DQUOTE] @ ''1''
        @ [DQUOTE] @ ''>Corp</at></at>''
   \<and> \<not> sublist (''<at id='' @ [DQUOTE] @ ''0'' @ [DQUOTE] @ ''>john@corp</at>'')
         (''Hi <at id='' @ [DQUOTE] @ ''0'' @ [DQUOTE] @ ''>john<at id='' @ [DQUOTE] @ ''1''
          @ [DQUOTE] @ ''>Corp</at></at>'')"
proof -
  let ?ms = "[\<lparr>mention = ''john'', userId = Some ''u1'', channelId = None,
               displayName = ''john@corp''\<rparr>,
              \<lparr>mention = ''corp'', userId = None, channelId = Some ''c1'',
               displayName = ''Corp''\<rparr>]"
  let ?out = "''Hi <at id='' @ [DQUOTE] @ ''0'' @ [DQUOTE] @ ''>john<at id='' @ [DQUOTE]
               @ ''1'' @ [DQUOTE] @ ''>Corp</at></at>''"
  have t: "tokenOccurs ''john'' ''Hi @john''"
    by (simp add: tokenOccurs_simps occursHere_def bareForm_def quotedForm_def)
  have c: "content (processMentionsInHtml ''Hi @john'' ?ms) = ?out"
    by (simp add: processMentionsInHtml_def processMapping_def Let_def mentionTemplate_def
        string_of_nat.simps digit_char_def mentionRegex_eq quotedForm_def bareForm_def)
  have n: "\<not> sublist (''<at id='' @ [DQUOTE] @ ''0'' @ [DQUOTE] @ ''>john@corp</at>'') ?out"
    by (simp add: sublist_Cons_right)
  from t c n show ?thesis by simp
qed

text \<open>
  Claim C10, amended. For every mapping whose \<^verbatim>\<open>displayName\<close> contains no \<^verbatim>\<open>$\<close> and whose
  token occurs in the content that its replacement works on (the given content after the
  replacements of the earlier references), each occurrence is replaced by exactly the
  string \<^verbatim>\<open><at id="i">displayName</at>\<close>, \<open>i\<close> the index of the mapping: that content, cut at
  its occurrences, comes back from the replacement with this string in the place of every
  occurrence. For the last mapping of the list this is the output of
  \<^verbatim>\<open>processMentionsInHtml\<close>; the replacement of a later mapping can rewrite the string
  again.
\<close>

theorem plain_display_name_exact_span:
  assumes "i < length ms"
    and "CHR ''$'' \<notin> set (displayName (ms ! i))"
    and "content (processMentionsInHtml html (take i ms)) = weave g segs"
    and "occurrencesIn (mention (ms ! i)) g segs"
  shows "content (processMentionsInHtml html (take (Suc i) ms))
           = weave g
               (map (\<lambda>(occ, g').
                       (''<at id='' @ [DQUOTE] @ string_of_nat i @ [DQUOTE] @ ''>''
                        @ displayName (ms ! i) @ ''</at>'', g'))
                  segs)"
  using assms replaceMentions_weave_plain [OF assms(2,4), of i "[]"]
  by (simp add: processMentionsInHtml_Suc content_processMapping markupSpan_def)

theorem plain_display_name_exact_span_witness:
  "content (processMentionsInHtml ''<p>Hello @john.doe, how are you?</p>''
      [\<lparr>mention = ''john.doe'', userId = Some ''1'', channelId = None,
        displayName = ''John Doe''\<rparr>])
   = ''<p>Hello <at id='' @ [DQUOTE] @ ''0'' @ [DQUOTE] @ ''>John Doe</at>, how are you?</p>''"
proof -
  let ?m = "\<lparr>mention = ''john.doe'', userId = Some ''1'', channelId = None,
             displayName = ''John Doe''\<rparr>"
  let ?segs = "[(''@john.doe'', '', how are you?</p>'')]"
  have l: "0 < length [?m]" by simp
  have d: "CHR ''$'' \<notin> set (displayName ([?m] ! 0))" by simp
  have c: "content (processMentionsInHtml ''<p>Hello @john.doe, how are you?</p>''
              (take 0 [?m])) = weave ''<p>Hello '' ?segs"
    by (simp add: processMentionsInHtml_def)
  have o: "occurrencesIn (mention ([?m] ! 0)) ''<p>Hello '' ?segs"
    by (simp add: occursHere_def bareForm_def quotedForm_def matchedForm_def)
  from plain_display_name_exact_span [OF l d c o]
  show ?thesis by (simp add: string_of_nat.simps digit_char_def)
qed

text \<open>
  Why the condition on the display name is there: a \<^verbatim>\<open>$&\<close> in the display name is expanded
  to the matched text.
\<close>

lemma dollar_sequences_are_expanded:
  "content (processMentionsInHtml ''Hi @bob''
      [\<lparr>mention = ''bob'', userId = Some ''u2'', channelId = None, displayName = ''$&''\<rparr>])
   = ''Hi <at id='' @ [DQUOTE] @ ''0'' @ [DQUOTE] @ ''>@bob</at>''"
  by (simp add: processMentionsInHtml_def processMapping_def Let_def mentionTemplate_def
      string_of_nat.simps digit_char_def mentionRegex_eq quotedForm_def bareForm_def)

section \<open>Resolving display names\<close>

text \<open>The pattern for channel ids accepts exactly the ids \<^verbatim>\<open>19:<chars>@thread.tacv2\<close>.\<close>

lemma channelIdPattern_iff:
  "channelIdPattern s \<longleftrightarrow>
     (\<exists>body. s = ''19:'' @ body @ ''@thread.tacv2'' \<and> body \<noteq> []
        \<and> list_all channelIdChar body)"
proof
  assume a: "channelIdPattern s"
  then obtain r where r: "s = ''19:'' @ r"
    by (auto simp: channelIdPattern_def prefix_def)
  from a have len: "17 \<le> length s"
    by (simp add: channelIdPattern_def)
  from a have "suffix ''@thread.tacv2'' (''19:'' @ r)"
    by (simp add: channelIdPattern_def r)
  with len r have "suffix ''@thread.tacv2'' r"
    by (auto simp: suffix_Cons)
  then obtain body where b: "r = body @ ''@thread.tacv2''"
    by (auto simp: suffix_def)
  have "take (length s - 16) (drop 3 s) = body"
    by (simp add: r b)
  with a have "list_all channelIdChar body"
    by (simp add: channelIdPattern_def)
  moreover from len have "body \<noteq> []"
    by (auto simp: r b)
  ultimately show "\<exists>body. s = ''19:'' @ body @ ''@thread.tacv2'' \<and> body \<noteq> []
      \<and> list_all channelIdChar body"
    using r b by blast
next
  assume "\<exists>body. s = ''19:'' @ body @ ''@thread.tacv2'' \<and> body \<noteq> []
      \<and> list_all channelIdChar body"
  then obtain body where "s = ''19:'' @ body @ ''@thread.tacv2''" "body \<noteq> []"
    "list_all channelIdChar body"
    by blast
  then show "channelIdPattern s"
    by (cases body) (auto simp: channelIdPattern_def suffix_def)
qed

lemma mentionsSchema_valid:
  "mentionsSchema (Some ms) = Inr r \<Longrightarrow> list_all mentionRefinement ms"
  by (simp add: mentionsSchema_def split: if_splits)

lemma fst_resolveMention:
  "mentionRefinement m \<Longrightarrow>
     fst (resolveMention lookup st m) = fst st @ [resolvedMapping lookup m]"
  by (auto simp: resolveMention_def resolvedMapping_def mentionRefinement_iff Let_def
      split: LookupResult.splits)

lemma fst_resolveMentions:
  "list_all mentionRefinement ms \<Longrightarrow>
     fst (resolveMentions lookup st ms) = fst st @ map (resolvedMapping lookup) ms"
  by (induction ms arbitrary: st) (simp_all add: fst_resolveMention)

lemma isApiGet_validateChannelIdFormat:
  "filter isApiGet (validateChannelIdFormat cid tok) = []"
  by (simp add: validateChannelIdFormat_def)

lemma lookups_resolveMention:
  "filter isApiGet (snd (resolveMention lookup st m))
     = filter isApiGet (snd st)
       @ (if truthy (userId m) then [ApiGet (''/users/'' @ toString (userId m))] else [])"
  by (simp add: resolveMention_def Let_def isApiGet_validateChannelIdFormat
      split: LookupResult.splits)

text \<open>The lookups of a batch are those of its user references, one each, in order.\<close>

lemma lookups_resolveMentions:
  "filter isApiGet (snd (resolveMentions lookup st ms))
     = filter isApiGet (snd st)
       @ map (\<lambda>m. ApiGet (''/users/'' @ toString (userId m)))
           (filter (\<lambda>m. truthy (userId m)) ms)"
  by (induction ms arbitrary: st) (simp_all add: lookups_resolveMention)

lemma processMessageMentions_valid:
  assumes "list_all mentionRefinement ms"
  shows "finalMentions (processMessageMentions lookup c ct (Some ms))
           = mentions (processMentionsInHtml c (map (resolvedMapping lookup) ms))"
    and "effects (processMessageMentions lookup c ct (Some ms))
           = snd (resolveMentions lookup ([], []) ms)"
    and "ms \<noteq> [] \<Longrightarrow>
           bodyContentType (processMessageMentions lookup c ct (Some ms)) = ''html''"
proof -
  have m: "fst (resolveMentions lookup ([], []) ms) = map (resolvedMapping lookup) ms"
    using assms by (simp add: fst_resolveMentions)
  show "finalMentions (processMessageMentions lookup c ct (Some ms))
           = mentions (processMentionsInHtml c (map (resolvedMapping lookup) ms))"
    by (cases "ms = []")
      (simp_all add: processMessageMentions_def Let_def m processMentionsInHtml_def)
  show "effects (processMessageMentions lookup c ct (Some ms))
           = snd (resolveMentions lookup ([], []) ms)"
    by (cases "ms = []") (simp_all add: processMessageMentions_def Let_def m)
  show "bodyContentType (processMessageMentions lookup c ct (Some ms)) = ''html''"
    if "ms \<noteq> []"
    using that by (simp add: processMessageMentions_def Let_def m)
qed

lemma resolvedMapping_lookup_failed:
  assumes "userId m = Some uid" and "uid \<noteq> []"
    and "lookup uid = Throws \<or> lookup uid = Response None \<or> lookup uid = Response (Some [])"
  shows "resolvedMapping lookup m
           = \<lparr>mention = mention m, userId = Some uid, channelId = None,
               displayName = mention m\<rparr>"
  using assms by (auto simp: resolvedMapping_def truthy_def toString_def)

lemma resolvedMapping_channel:
  assumes "mentionRefinement m" and "channelId m = Some cid" and "cid \<noteq> []"
  shows "resolvedMapping lookup m
           = \<lparr>mention = mention m, userId = None, channelId = Some cid,
               displayName = mention m\<rparr>"
  using assms by (auto simp: resolvedMapping_def mentionRefinement_iff truthy_def)

lemma mention_resolvedMapping: "mention (resolvedMapping lookup m) = mention m"
  by (simp add: resolvedMapping_def)

text \<open>
  Claim C6. While the references of a message are resolved, if the directory lookup for a
  user reference throws, or answers with an empty or absent display name, the label of
  that reference is the mention text given by the caller, and the resolution of the whole
  batch goes on and succeeds: every reference of the batch is resolved, in order, and
  every one has its record, the one of the failed lookup with the mention text as its
  display text.
\<close>

theorem lookup_failure_falls_back:
  assumes "mentionsSchema (Some ms) = Inr (Some ms)"
    and "i < length ms"
    and "userId (ms ! i) = Some uid" and "uid \<noteq> []"
    and "lookup uid = Throws \<or> lookup uid = Response None \<or> lookup uid = Response (Some [])"
  shows "fst (resolveMentions lookup ([], []) ms) ! i
           = \<lparr>mention = mention (ms ! i), userId = Some uid, channelId = None,
               displayName = mention (ms ! i)\<rparr>
       \<and> map mention (fst (resolveMentions lookup ([], []) ms)) = map mention ms
       \<and> length (finalMentions (processMessageMentions lookup c ct (Some ms))) = length ms
       \<and> finalMentions (processMessageMentions lookup c ct (Some ms)) ! i
           = \<lparr>mention_id = i, mentionText = mention (ms ! i), mentioned = User (Some uid)\<rparr>"
proof -
  from assms(1) have valid: "list_all mentionRefinement ms"
    by (rule mentionsSchema_valid)
  have maps: "fst (resolveMentions lookup ([], []) ms) = map (resolvedMapping lookup) ms"
    using valid by (simp add: fst_resolveMentions)
  have r: "resolvedMapping lookup (ms ! i)
             = \<lparr>mention = mention (ms ! i), userId = Some uid, channelId = None,
                 displayName = mention (ms ! i)\<rparr>"
    using assms(3-5) by (rule resolvedMapping_lookup_failed)
  have "finalMentions (processMessageMentions lookup c ct (Some ms)) ! i
          = graphMention (resolvedMapping lookup (ms ! i)) i"
    using assms(2) by (simp add: processMessageMentions_valid(1) [OF valid] nth_mentions)
  moreover
  have "length (finalMentions (processMessageMentions lookup c ct (Some ms))) = length ms"
    by (simp add: processMessageMentions_valid(1) [OF valid] mentions_processMentionsInHtml)
  ultimately show ?thesis
    using assms(2)
    by (simp add: maps r graphMention_def isUserMentionMapping_def mention_resolvedMapping
        o_def)
qed

theorem lookup_failure_falls_back_witness:
  "length (finalMentions (processMessageMentions
       (\<lambda>u. if u = ''u1'' then Throws else Response (Some ''Bob Stone''))
       ''Hi @John and @bob'' ''text''
       (Some [\<lparr>mention = ''John'', userId = Some ''u1'', channelId = None\<rparr>,
              \<lparr>mention = ''bob'', userId = Some ''u2'', channelId = None\<rparr>]))) = 2
   \<and> finalMentions (processMessageMentions
       (\<lambda>u. if u = ''u1'' then Throws else Response (Some ''Bob Stone''))
       ''Hi @John and @bob'' ''text''
       (Some [\<lparr>mention = ''John'', userId = Some ''u1'', channelId = None\<rparr>,
              \<lparr>mention = ''bob'', userId = Some ''u2'', channelId = None\<rparr>])) ! 0
     = \<lparr>mention_id = 0, mentionText = ''John'', mentioned = User (Some ''u1'')\<rparr>"
proof -
  let ?ms = "[\<lparr>mention = ''John'', userId = Some ''u1'', channelId = None\<rparr>,
              \<lparr>mention = ''bob'', userId = Some ''u2'', channelId = None\<rparr>]"
  let ?lookup = "\<lambda>u. if u = ''u1'' then Throws else Response (Some ''Bob Stone'')"
  have v: "mentionsSchema (Some ?ms) = Inr (Some ?ms)"
    by (simp add: mentionsSchema_def mentionRefinement_def)
  have i: "0 < length ?ms" by simp
  have u: "userId (?ms ! 0) = Some ''u1''" "''u1'' \<noteq> []" by simp_all
  have f: "?lookup ''u1'' = Throws \<or> ?lookup ''u1'' = Response None
            \<or> ?lookup ''u1'' = Response (Some [])"
    by simp
  from lookup_failure_falls_back
         [of ?ms 0 "''u1''" ?lookup "''Hi @John and @bob''" "''text''", OF v i u f]
  show ?thesis by simp
qed

text \<open>
  Claim C7. While the references of a message are resolved, a channel reference causes no
  directory lookup, and its label is always the mention text given by the caller. The
  channel id is checked against the shape \<^verbatim>\<open>19:<chars>@thread.tacv2\<close>; an id of another
  shape yields a console warning and nothing else: the reference goes into
  \<^verbatim>\<open>processMentionsInHtml\<close> with its id unchanged and has its record there.
\<close>

theorem channel_reference_no_lookup:
  assumes "mentionsSchema (Some ms) = Inr (Some ms)"
    and "i < length ms"
    and "channelId (ms ! i) = Some cid" and "cid \<noteq> []"
  shows "resolveMention lookup st (ms ! i)
           = (fst st @ [\<lparr>mention = mention (ms ! i), userId = None, channelId = Some cid,
                         displayName = mention (ms ! i)\<rparr>],
              snd st @ validateChannelIdFormat cid (mention (ms ! i)))
       \<and> (\<exists>msg. validateChannelIdFormat cid (mention (ms ! i))
                   = (if channelIdPattern cid then [] else [ConsoleWarn msg]))
       \<and> filter isApiGet (effects (processMessageMentions lookup c ct (Some ms)))
           = map (\<lambda>m. ApiGet (''/users/'' @ toString (userId m)))
               (filter (\<lambda>m. truthy (userId m)) ms)
       \<and> length (finalMentions (processMessageMentions lookup c ct (Some ms))) = length ms
       \<and> finalMentions (processMessageMentions lookup c ct (Some ms)) ! i
           = \<lparr>mention_id = i, mentionText = mention (ms ! i),
               mentioned = Conversation (Some cid) (mention (ms ! i)) ''channel''\<rparr>"
proof -
  from assms(1) have valid: "list_all mentionRefinement ms"
    by (rule mentionsSchema_valid)
  with assms(2) have vi: "mentionRefinement (ms ! i)"
    by (simp add: list_all_length)
  with assms(3,4) have nu: "\<not> truthy (userId (ms ! i))" and ch: "truthy (channelId (ms ! i))"
    by (auto simp: mentionRefinement_iff truthy_def)
  have r: "resolvedMapping lookup (ms ! i)
             = \<lparr>mention = mention (ms ! i), userId = None, channelId = Some cid,
                 displayName = mention (ms ! i)\<rparr>"
    using vi assms(3,4) by (rule resolvedMapping_channel)
  have step: "resolveMention lookup st (ms ! i)
           = (fst st @ [\<lparr>mention = mention (ms ! i), userId = None, channelId = Some cid,
                         displayName = mention (ms ! i)\<rparr>],
              snd st @ validateChannelIdFormat cid (mention (ms ! i)))"
    using nu ch assms(3) by (simp add: resolveMention_def Let_def toString_def)
  have warn: "\<exists>msg. validateChannelIdFormat cid (mention (ms ! i))
                   = (if channelIdPattern cid then [] else [ConsoleWarn msg])"
    by (simp add: validateChannelIdFormat_def)
  have look: "filter isApiGet (effects (processMessageMentions lookup c ct (Some ms)))
           = map (\<lambda>m. ApiGet (''/users/'' @ toString (userId m)))
               (filter (\<lambda>m. truthy (userId m)) ms)"
    by (simp add: processMessageMentions_valid(2) [OF valid] lookups_resolveMentions)
  have len: "length (finalMentions (processMessageMentions lookup c ct (Some ms)))
               = length ms"
    by (simp add: processMessageMentions_valid(1) [OF valid] mentions_processMentionsInHtml)
  have "finalMentions (processMessageMentions lookup c ct (Some ms)) ! i
          = graphMention (resolvedMapping lookup (ms ! i)) i"
    using assms(2) by (simp add: processMessageMentions_valid(1) [OF valid] nth_mentions)
  then have fin: "finalMentions (processMessageMentions lookup c ct (Some ms)) ! i
           = \<lparr>mention_id = i, mentionText = mention (ms ! i),
               mentioned = Conversation (Some cid) (mention (ms ! i)) ''channel''\<rparr>"
    by (simp add: r graphMention_def isUserMentionMapping_def)
  from step warn look len fin show ?thesis by blast
qed

theorem channel_reference_no_lookup_witness:
  "\<not> channelIdPattern ''c1''
   \<and> filter isApiGet (effects (processMessageMentions (\<lambda>u. Throws) ''See @General'' ''text''
        (Some [\<lparr>mention = ''General'', userId = None, channelId = Some ''c1''\<rparr>]))) = []
   \<and> finalMentions (processMessageMentions (\<lambda>u. Throws) ''See @General'' ''text''
        (Some [\<lparr>mention = ''General'', userId = None, channelId = Some ''c1''\<rparr>])) ! 0
      = \<lparr>mention_id = 0, mentionText = ''General'',
          mentioned = Conversation (Some ''c1'') ''General'' ''channel''\<rparr>"
proof -
  let ?ms = "[\<lparr>mention = ''General'', userId = None, channelId = Some ''c1''\<rparr>]"
  have v: "mentionsSchema (Some ?ms) = Inr (Some ?ms)"
    by (simp add: mentionsSchema_def mentionRefinement_def)
  have i: "0 < length ?ms" by simp
  have ch: "channelId (?ms ! 0) = Some ''c1''" "''c1'' \<noteq> []" by simp_all
  have p: "\<not> channelIdPattern ''c1''" by (simp add: channelIdPattern_def)
  from channel_reference_no_lookup
         [of ?ms 0 "''c1''" "\<lambda>u. Throws" "([], [])" "''See @General''" "''text''", OF v i ch] p
  show ?thesis by (simp add: truthy_def)
qed

end
